theory Spec2Isabelle
  imports Complex_Main "HOL-Library.Log_Nat"
begin

section \<open>The graph value that app.py builds and mutates\<close>

text \<open>
  app.py keeps its network in a \<^verbatim>\<open>networkx.Graph\<close>: an insertion-ordered dictionary of
  nodes and, per node, an insertion-ordered dictionary of neighbours whose values are the
  attribute dictionary of the edge, shared by both directions. The only attribute app.py
  ever stores is \<^verbatim>\<open>wavelength\<close>, which is Python's \<^verbatim>\<open>None\<close> or a string.

  The record below holds the node keys in insertion order and one entry per undirected
  edge, in the order in which the edge was first inserted, written with the endpoints as
  they were given at that first insertion. The neighbour order of a node is recovered from
  that list by \<open>nbrs\<close>.
\<close>

datatype error = IndexError | KeyError | NetworkXError | OverflowError

record graph =
  nodes :: "int list"
  edge_list :: "((int \<times> int) \<times> string option) list"

definition empty_graph :: graph where
  "empty_graph = \<lparr>nodes = [], edge_list = []\<rparr>"

text \<open>Python's \<^verbatim>\<open>range(a, b)\<close> over unbounded integers.\<close>

definition py_range :: "int \<Rightarrow> int \<Rightarrow> int list" where
  "py_range a b = [a..b - 1]"

text \<open>\<^verbatim>\<open>v in G[u]\<close>: the edge is stored under both orientations.\<close>

definition has_edge :: "graph \<Rightarrow> int \<Rightarrow> int \<Rightarrow> bool" where
  "has_edge G u v =
     list_ex (\<lambda>e. fst e = (u, v) \<or> fst e = (v, u)) (edge_list G)"

text \<open>\<^verbatim>\<open>Graph.add_node\<close>: a key that is already present keeps its place.\<close>

definition add_node :: "graph \<Rightarrow> int \<Rightarrow> graph" where
  "add_node G v = (if v \<in> set (nodes G) then G else G\<lparr>nodes := nodes G @ [v]\<rparr>)"

definition add_nodes_from :: "graph \<Rightarrow> int list \<Rightarrow> graph" where
  "add_nodes_from G vs = foldl add_node G vs"

text \<open>
  \<^verbatim>\<open>Graph.add_edge(u, v, wavelength=w)\<close>: missing endpoints are created (first \<open>u\<close>, then
  \<open>v\<close>); an edge that exists already, under either orientation, keeps its place and has
  its attribute overwritten; a new edge is appended. Self-loops are accepted.
\<close>

definition set_attr :: "int \<Rightarrow> int \<Rightarrow> string option \<Rightarrow>
    (int \<times> int) \<times> string option \<Rightarrow> (int \<times> int) \<times> string option" where
  "set_attr u v w e = (if fst e = (u, v) \<or> fst e = (v, u) then (fst e, w) else e)"

definition add_edge :: "graph \<Rightarrow> int \<Rightarrow> int \<Rightarrow> string option \<Rightarrow> graph" where
  "add_edge G u v w =
     (let G1 = add_node (add_node G u) v
      in if has_edge G1 u v
         then G1\<lparr>edge_list := map (set_attr u v w) (edge_list G1)\<rparr>
         else G1\<lparr>edge_list := edge_list G1 @ [((u, v), w)]\<rparr>)"

text \<open>
  \<^verbatim>\<open>Graph.remove_node(n)\<close>: raises \<^verbatim>\<open>NetworkXError\<close> when \<open>n\<close> is not a node; otherwise
  deletes the node and every adjacency entry that mentions it.
\<close>

definition incident :: "int \<Rightarrow> (int \<times> int) \<times> string option \<Rightarrow> bool" where
  "incident n e = (fst (fst e) = n \<or> snd (fst e) = n)"

definition remove_node :: "graph \<Rightarrow> int \<Rightarrow> error + graph" where
  "remove_node G n =
     (if n \<in> set (nodes G)
      then Inr \<lparr>nodes = removeAll n (nodes G),
                edge_list = filter (\<lambda>e. \<not> incident n e) (edge_list G)\<rparr>
      else Inl NetworkXError)"

text \<open>
  The neighbours of \<open>n\<close> in adjacency order, and \<^verbatim>\<open>G.edges()\<close>: the edge view walks
  the nodes in order, and under each node its neighbours in order, reporting
  \<^verbatim>\<open>(n, nbr)\<close> unless \<open>nbr\<close> is a node the walk has already left behind.
\<close>

definition nbrs :: "graph \<Rightarrow> int \<Rightarrow> int list" where
  "nbrs G n =
     concat (map (\<lambda>e. if fst (fst e) = n then [snd (fst e)]
                       else if snd (fst e) = n then [fst (fst e)] else [])
                 (edge_list G))"

fun edges_from :: "graph \<Rightarrow> int list \<Rightarrow> int list \<Rightarrow> (int \<times> int) list" where
  "edges_from G seen [] = []"
| "edges_from G seen (n # ns) =
     map (Pair n) (filter (\<lambda>nbr. nbr \<notin> set seen) (nbrs G n)) @ edges_from G (n # seen) ns"

definition edges :: "graph \<Rightarrow> (int \<times> int) list" where
  "edges G = edges_from G [] (nodes G)"

text \<open>
  \<^verbatim>\<open>G[u][v]['wavelength'] = x\<close>: the lookup \<^verbatim>\<open>G[u][v]\<close> raises \<^verbatim>\<open>KeyError\<close> when there is
  no such edge; otherwise the shared attribute dictionary is updated.
\<close>

definition set_wavelength :: "graph \<Rightarrow> int \<Rightarrow> int \<Rightarrow> string \<Rightarrow> error + graph" where
  "set_wavelength G u v x =
     (if has_edge G u v
      then Inr (G\<lparr>edge_list := map (set_attr u v (Some x)) (edge_list G)\<rparr>)
      else Inl KeyError)"

text \<open>
  \<^verbatim>\<open>random.choice(seq)\<close> raises \<^verbatim>\<open>IndexError\<close> on an empty sequence and otherwise returns
  the element at an index below \<^verbatim>\<open>len(seq)\<close> chosen by the generator. The generator is a
  parameter: \<open>r\<close> is the number it delivers for this draw, reduced to the admissible
  indices, so that \<open>r\<close> ranging over all naturals covers every possible choice.
\<close>

definition choice :: "'a list \<Rightarrow> nat \<Rightarrow> error + 'a" where
  "choice seq r = (if seq = [] then Inl IndexError else Inr (seq ! (r mod length seq)))"

section \<open>The functions of app.py\<close>

text \<open>
  \<^verbatim>\<open>create_topology(nodes, topology_type)\<close>. The kind is a string and the chain of
  \<^verbatim>\<open>if/elif\<close> has no final \<^verbatim>\<open>else\<close>. \<^verbatim>\<open>i % nodes\<close> and \<^verbatim>\<open>nodes // 2\<close> are Python's
  floored operations, which \<open>mod\<close> and \<open>div\<close> on \<open>int\<close> are as well.
\<close>

definition create_topology :: "int \<Rightarrow> string \<Rightarrow> graph" where
  "create_topology n topology_type =
     (let G = add_nodes_from empty_graph (py_range 1 (n + 1)) in
      if topology_type = ''Ring'' then
        foldl (\<lambda>G i. add_edge G i ((i mod n) + 1) None) G (py_range 1 (n + 1))
      else if topology_type = ''Mesh'' then
        foldl (\<lambda>G i. foldl (\<lambda>G j. add_edge G i j None) G (py_range (i + 1) (n + 1)))
              G (py_range 1 (n + 1))
      else if topology_type = ''Star'' then
        foldl (\<lambda>G i. add_edge G 1 i None) G (py_range 2 (n + 1))
      else if topology_type = ''PON'' then
        foldl (\<lambda>G i. add_edge G 1 i None) G (py_range 2 (n + 1))
      else if topology_type = ''WRPON'' then
        (let middle = n div 2;
             G1 = foldl (\<lambda>G i. add_edge G 1 i None) G (py_range 2 (middle + 2))
         in foldl (\<lambda>G i. foldl (\<lambda>G j. add_edge G i j None) G
                                 (py_range (middle + 2) (n + 1)))
                  G1 (py_range 2 (middle + 2)))
      else if topology_type = ''Broadcast Select PON'' then
        foldl (\<lambda>G i. add_edge G 1 i None) G (py_range 2 (n + 1))
      else G)"

text \<open>
  \<^verbatim>\<open>assign_wavelengths(G, wavelengths)\<close>. The right-hand side \<^verbatim>\<open>random.choice(wavelengths)\<close>
  is evaluated before the subscription on the left. \<open>rnd k\<close> is the generator's output
  at the \<open>k\<close>-th draw. The loop only rewrites attribute values, so the edge view it
  iterates over is the one computed at its start.
\<close>

fun assign_loop ::
  "graph \<Rightarrow> string list \<Rightarrow> (nat \<Rightarrow> nat) \<Rightarrow> nat \<Rightarrow> (int \<times> int) list \<Rightarrow> error + graph" where
  "assign_loop G wavelengths rnd k [] = Inr G"
| "assign_loop G wavelengths rnd k (e # es) =
     (case choice wavelengths (rnd k) of
        Inl err \<Rightarrow> Inl err
      | Inr x \<Rightarrow>
          (case set_wavelength G (fst e) (snd e) x of
             Inl err \<Rightarrow> Inl err
           | Inr G' \<Rightarrow> assign_loop G' wavelengths rnd (Suc k) es))"

definition assign_wavelengths :: "graph \<Rightarrow> string list \<Rightarrow> (nat \<Rightarrow> nat) \<Rightarrow> error + graph" where
  "assign_wavelengths G wavelengths rnd = assign_loop G wavelengths rnd 0 (edges G)"

text \<open>
  Python converts an integer to a float (an IEEE double) by rounding its magnitude to 53
  significant bits, ties to the even neighbour, and raises \<^verbatim>\<open>OverflowError\<close> when the
  rounded magnitude reaches \<open>2^1024\<close>. \<open>bitlen\<close> is \<^verbatim>\<open>int.bit_length\<close>. A float is kept
  as the rational number it denotes.
\<close>

definition round_to_double :: "int \<Rightarrow> int" where
  "round_to_double m =
     (let shift = bitlen m - 53 in
      if shift \<le> 0 then m
      else
        let d = 2 ^ nat shift; q = m div d; r = m mod d
        in (if d < 2 * r \<or> (2 * r = d \<and> odd q) then q + 1 else q) * d)"

definition float_of_int :: "int \<Rightarrow> error + rat" where
  "float_of_int n =
     (let v = round_to_double \<bar>n\<bar>
      in if 2 ^ 1024 \<le> v then Inl OverflowError else Inr (of_int (sgn n * v)))"

text \<open>
  \<^verbatim>\<open>qos_metrics(traffic_load, hops, wavelength_conversion)\<close>. Both sliders deliver
  integers. With conversion, \<^verbatim>\<open>hops * 0.5\<close> first converts \<open>hops\<close> to a float and then
  halves it, which is exact on a float of magnitude at least 1; without, \<^verbatim>\<open>hops * 1\<close> is
  integer arithmetic. The latency is computed before the throughput, so a failed
  conversion ends the call.
\<close>

definition qos_metrics :: "int \<Rightarrow> int \<Rightarrow> bool \<Rightarrow> error + rat \<times> int" where
  "qos_metrics traffic_load hops wavelength_conversion =
     (case (if wavelength_conversion
            then (case float_of_int hops of Inl err \<Rightarrow> Inl err | Inr x \<Rightarrow> Inr (x * (1 / 2)))
            else Inr (of_int (hops * 1))) of
        Inl err \<Rightarrow> Inl err
      | Inr latency \<Rightarrow>
          (let throughput = max 0 (100 - traffic_load * 2)
           in Inr (latency, throughput)))"

text \<open>\<^verbatim>\<open>simulate_node_failure(G, failed_node)\<close>.\<close>

definition simulate_node_failure :: "graph \<Rightarrow> int \<Rightarrow> error + graph" where
  "simulate_node_failure G failed_node =
     (if failed_node \<in> set (nodes G) then remove_node G failed_node else Inr G)"

text \<open>
  The module-level pipeline of app.py (lines 128 to 132): build, assign, and remove the
  failed node unless the input is \<open>0\<close>.
\<close>

definition simulate ::
  "int \<Rightarrow> string \<Rightarrow> string list \<Rightarrow> int \<Rightarrow> (nat \<Rightarrow> nat) \<Rightarrow> error + graph" where
  "simulate n topology_type wavelengths failed_node rnd =
     (case assign_wavelengths (create_topology n topology_type) wavelengths rnd of
        Inl err \<Rightarrow> Inl err
      | Inr G \<Rightarrow> if failed_node \<noteq> 0 then simulate_node_failure G failed_node else Inr G)"

section \<open>Vocabulary for the properties\<close>

text \<open>
  An undirected edge is identified by its endpoints in ascending order; the lists below are
  the endpoint pairs that each loop of \<open>create_topology\<close> passes to \<open>add_edge\<close>, in the
  order of the loop, and \<open>initial n\<close> is the graph after \<^verbatim>\<open>add_nodes_from\<close>.
\<close>

definition upair :: "int \<times> int \<Rightarrow> int \<times> int" where
  "upair p = (min (fst p) (snd p), max (fst p) (snd p))"

definition add_edges :: "graph \<Rightarrow> (int \<times> int) list \<Rightarrow> graph" where
  "add_edges G ps = foldl (\<lambda>G p. add_edge G (fst p) (snd p) None) G ps"

definition unset :: "(int \<times> int) list \<Rightarrow> ((int \<times> int) \<times> string option) list" where
  "unset ps = map (\<lambda>p. (p, None)) ps"

definition ring_pairs :: "int \<Rightarrow> (int \<times> int) list" where
  "ring_pairs n = map (\<lambda>i. (i, i mod n + 1)) [1..n]"

definition mesh_pairs :: "int \<Rightarrow> (int \<times> int) list" where
  "mesh_pairs n = concat (map (\<lambda>i. map (Pair i) [i + 1..n]) [1..n])"

definition star_pairs :: "int \<Rightarrow> (int \<times> int) list" where
  "star_pairs n = map (Pair 1) [2..n]"

definition wrpon_pairs :: "int \<Rightarrow> (int \<times> int) list" where
  "wrpon_pairs n =
     map (Pair 1) [2..n div 2 + 1] @
     concat (map (\<lambda>i. map (Pair i) [n div 2 + 2..n]) [2..n div 2 + 1])"

definition initial :: "int \<Rightarrow> graph" where
  "initial n = \<lparr>nodes = [1..n], edge_list = []\<rparr>"

text \<open>
  The invariants of the specification's data model: every link joins nodes that are
  present (\<open>endpoints_ok\<close>), no link is a self-loop, no unordered pair is linked twice; a
  \<open>wf_graph\<close> is a value a \<^verbatim>\<open>networkx.Graph\<close> can hold (node keys are unique, adjacency
  entries exist under present nodes only and once per pair). \<open>labelled\<close> says that a link
  carries one of the given wavelengths, \<open>matches\<close> that an endpoint pair reported by the
  edge view designates a stored link.
\<close>

definition endpoints_ok :: "graph \<Rightarrow> bool" where
  "endpoints_ok G =
     list_all (\<lambda>e. fst (fst e) \<in> set (nodes G) \<and> snd (fst e) \<in> set (nodes G)) (edge_list G)"

definition no_self_loops :: "graph \<Rightarrow> bool" where
  "no_self_loops G = list_all (\<lambda>e. fst (fst e) \<noteq> snd (fst e)) (edge_list G)"

definition simple_links :: "graph \<Rightarrow> bool" where
  "simple_links G = distinct (map (\<lambda>e. upair (fst e)) (edge_list G))"

definition wf_graph :: "graph \<Rightarrow> bool" where
  "wf_graph G \<longleftrightarrow> distinct (nodes G) \<and> endpoints_ok G \<and> simple_links G"

definition labelled :: "string list \<Rightarrow> (int \<times> int) \<times> string option \<Rightarrow> bool" where
  "labelled wavelengths e = list_ex (\<lambda>x. snd e = Some x) wavelengths"

definition matches :: "int \<times> int \<Rightarrow> (int \<times> int) \<times> string option \<Rightarrow> bool" where
  "matches p e \<longleftrightarrow> fst e = p \<or> fst e = (snd p, fst p)"

text \<open>
  A generator that always delivers 0, for closed examples. \<open>path_links vs\<close> are the steps
  of the walk \<open>vs\<close> as unordered pairs; \<open>forms_paths G ps\<close> says that \<open>G\<close> is the disjoint
  union of the simple paths \<open>ps\<close>: they are non-empty, no node occurs twice in them, they
  visit exactly the nodes of \<open>G\<close>, and the links of \<open>G\<close> are exactly their steps.
\<close>

definition draw_first :: "nat \<Rightarrow> nat" where
  "draw_first k = 0"

definition path_links :: "int list \<Rightarrow> (int \<times> int) list" where
  "path_links vs = map upair (zip vs (tl vs))"

definition forms_paths :: "graph \<Rightarrow> int list list \<Rightarrow> bool" where
  "forms_paths G ps \<longleftrightarrow>
     [] \<notin> set ps \<and> distinct (concat ps) \<and> set (concat ps) = set (nodes G)
     \<and> set (map (\<lambda>e. upair (fst e)) (edge_list G)) = set (concat (map path_links ps))"

section \<open>Adding edges between existing nodes\<close>

lemma upair_eq_iff: "upair p = upair q \<longleftrightarrow> p = q \<or> p = (snd q, fst q)"
  by (cases p; cases q) (auto simp: upair_def min_def max_def split: if_splits)

lemma has_edge_iff: "has_edge G u v \<longleftrightarrow> upair (u, v) \<in> upair ` fst ` set (edge_list G)"
proof -
  have "has_edge G u v \<longleftrightarrow> (\<exists>e \<in> set (edge_list G). upair (u, v) = upair (fst e))"
    unfolding has_edge_def list_ex_iff upair_eq_iff
    by (intro bex_cong refl) (auto simp: prod_eq_iff)
  then show ?thesis by (simp add: image_iff)
qed

lemma add_node_present: "v \<in> set (nodes G) \<Longrightarrow> add_node G v = G"
  by (simp add: add_node_def)

lemma add_nodes_from_fresh:
  "distinct vs \<Longrightarrow> set vs \<inter> set (nodes G) = {} \<Longrightarrow>
   add_nodes_from G vs = G\<lparr>nodes := nodes G @ vs\<rparr>"
  unfolding add_nodes_from_def
proof (induction vs arbitrary: G)
  case Nil
  then show ?case by simp
next
  case (Cons v vs)
  have "add_node G v = G\<lparr>nodes := nodes G @ [v]\<rparr>"
    using Cons.prems by (simp add: add_node_def)
  moreover have "foldl add_node (G\<lparr>nodes := nodes G @ [v]\<rparr>) vs
      = (G\<lparr>nodes := nodes G @ [v]\<rparr>)\<lparr>nodes := nodes (G\<lparr>nodes := nodes G @ [v]\<rparr>) @ vs\<rparr>"
    using Cons.prems by (intro Cons.IH) auto
  ultimately show ?case by simp
qed

lemma add_edge_fresh:
  "u \<in> set (nodes G) \<Longrightarrow> v \<in> set (nodes G) \<Longrightarrow> \<not> has_edge G u v \<Longrightarrow>
   add_edge G u v w = G\<lparr>edge_list := edge_list G @ [((u, v), w)]\<rparr>"
  by (simp add: add_edge_def add_node_present)

lemma add_edges_fresh:
  "\<forall>p \<in> set ps. fst p \<in> set (nodes G) \<and> snd p \<in> set (nodes G) \<Longrightarrow>
   distinct (map upair ps) \<Longrightarrow>
   upair ` set ps \<inter> upair ` fst ` set (edge_list G) = {} \<Longrightarrow>
   add_edges G ps = G\<lparr>edge_list := edge_list G @ unset ps\<rparr>"
proof (induction ps arbitrary: G)
  case Nil
  then show ?case by (simp add: add_edges_def unset_def)
next
  case (Cons p ps)
  let ?G = "G\<lparr>edge_list := edge_list G @ [(p, None)]\<rparr>"
  have fresh: "\<not> has_edge G (fst p) (snd p)"
    using Cons.prems(3) by (auto simp: has_edge_iff)
  have step: "add_edge G (fst p) (snd p) None = ?G"
    using Cons.prems(1) fresh by (simp add: add_edge_fresh)
  have "add_edges ?G ps = ?G\<lparr>edge_list := edge_list ?G @ unset ps\<rparr>"
  proof (rule Cons.IH)
    show "\<forall>q \<in> set ps. fst q \<in> set (nodes ?G) \<and> snd q \<in> set (nodes ?G)"
      using Cons.prems(1) by simp
    show "distinct (map upair ps)" using Cons.prems(2) by simp
    show "upair ` set ps \<inter> upair ` fst ` set (edge_list ?G) = {}"
      using Cons.prems(2,3) by auto
  qed
  then show ?case
    using step by (simp add: add_edges_def unset_def)
qed

lemma foldl_inner:
  "foldl (\<lambda>G j. f G i j) G js = foldl (\<lambda>G p. f G (fst p) (snd p)) G (map (Pair i) js)"
  by (induction js arbitrary: G) simp_all

lemma foldl_nested:
  "foldl (\<lambda>G i. foldl (\<lambda>G j. f G i j) G (js i)) G is
   = foldl (\<lambda>G p. f G (fst p) (snd p)) G (concat (map (\<lambda>i. map (Pair i) (js i)) is))"
  by (induction "is" arbitrary: G) (simp_all add: foldl_inner)

lemma upair_ordered: "\<forall>p \<in> set ps. fst p < snd p \<Longrightarrow> map upair ps = ps"
  by (induction ps) (auto simp: upair_def)

lemma distinct_pairs_concat:
  "distinct is \<Longrightarrow> (\<And>i. distinct (f i)) \<Longrightarrow>
   distinct (concat (map (\<lambda>i. map (Pair i) (f i)) is))"
  by (induction "is") (auto simp: distinct_map inj_on_def)

lemma py_range_succ: "py_range a (b + 1) = [a..b]"
  by (simp add: py_range_def)

lemma py_range_succ2: "py_range a (b + 2) = [a..b + 1]"
  by (simp add: py_range_def add.commute)

lemma add_nodes_initial: "add_nodes_from empty_graph [1..n] = initial n"
  by (simp add: add_nodes_from_fresh empty_graph_def initial_def)

lemma create_topology_Ring: "create_topology n ''Ring'' = add_edges (initial n) (ring_pairs n)"
  by (simp add: create_topology_def add_nodes_initial add_edges_def ring_pairs_def
      py_range_succ foldl_map)

lemma create_topology_Mesh: "create_topology n ''Mesh'' = add_edges (initial n) (mesh_pairs n)"
  by (simp add: create_topology_def add_nodes_initial add_edges_def mesh_pairs_def
      py_range_succ foldl_nested)

lemma star_loop:
  "foldl (\<lambda>G i. add_edge G 1 i None) G (py_range 2 (n + 1)) = add_edges G (star_pairs n)"
  by (simp add: add_edges_def star_pairs_def py_range_succ foldl_map)

lemma create_topology_Star: "create_topology n ''Star'' = add_edges (initial n) (star_pairs n)"
  by (simp add: create_topology_def py_range_succ [of 1] add_nodes_initial star_loop)

lemma create_topology_PON: "create_topology n ''PON'' = add_edges (initial n) (star_pairs n)"
  by (simp add: create_topology_def py_range_succ [of 1] add_nodes_initial star_loop)

lemma create_topology_BSPON:
  "create_topology n ''Broadcast Select PON'' = add_edges (initial n) (star_pairs n)"
  by (simp add: create_topology_def py_range_succ [of 1] add_nodes_initial star_loop)

lemma create_topology_WRPON:
  "create_topology n ''WRPON'' = add_edges (initial n) (wrpon_pairs n)"
  by (simp add: create_topology_def add_nodes_initial add_edges_def wrpon_pairs_def
      py_range_succ py_range_succ2 foldl_nested foldl_map Let_def)

lemma create_topology_other:
  "k \<notin> {''Ring'', ''Mesh'', ''Star'', ''PON'', ''WRPON'', ''Broadcast Select PON''} \<Longrightarrow>
   create_topology n k = initial n"
  by (simp add: create_topology_def py_range_succ add_nodes_initial)

lemma add_edges_initial:
  assumes "\<forall>p \<in> set ps. 1 \<le> fst p \<and> fst p \<le> n \<and> 1 \<le> snd p \<and> snd p \<le> n"
    and "distinct (map upair ps)"
  shows "add_edges (initial n) ps = \<lparr>nodes = [1..n], edge_list = unset ps\<rparr>"
proof -
  have "add_edges (initial n) ps = (initial n)\<lparr>edge_list := edge_list (initial n) @ unset ps\<rparr>"
    using assms by (intro add_edges_fresh) (auto simp: initial_def)
  then show ?thesis by (simp add: initial_def)
qed

lemma ring_pairs_unfold:
  assumes "1 \<le> n"
  shows "ring_pairs n = map (\<lambda>i. (i, i + 1)) [1..n - 1] @ [(n, 1)]"
proof -
  have "[1..n] = [1..n - 1] @ [n]"
    using assms by (simp add: upto_rec2)
  moreover have "map (\<lambda>i. (i, i mod n + 1)) [1..n - 1] = map (\<lambda>i. (i, i + 1)) [1..n - 1]"
    by (rule map_cong) auto
  ultimately show ?thesis by (simp add: ring_pairs_def)
qed

lemma ring_pairs_bounds:
  "1 \<le> n \<Longrightarrow> \<forall>p \<in> set (ring_pairs n). 1 \<le> fst p \<and> fst p \<le> n \<and> 1 \<le> snd p \<and> snd p \<le> n"
  by (auto simp: ring_pairs_unfold)

lemma ring_pairs_distinct:
  assumes "3 \<le> n"
  shows "distinct (map upair (ring_pairs n))"
proof -
  have "map upair (ring_pairs n) = map (\<lambda>i. (i, i + 1)) [1..n - 1] @ [(1, n)]"
    using assms by (simp add: ring_pairs_unfold upair_def comp_def)
  moreover have "distinct (map (\<lambda>i. (i, i + 1)) [1..n - 1])"
    by (simp add: distinct_map inj_on_def)
  moreover have "(1, n) \<notin> set (map (\<lambda>i. (i, i + 1)) [1..n - 1])"
    using assms by auto
  ultimately show ?thesis by simp
qed

lemma mesh_pairs_set: "set (mesh_pairs n) = {(i, j). 1 \<le> i \<and> i < j \<and> j \<le> n}"
  by (fastforce simp: mesh_pairs_def)

lemma mesh_pairs_distinct: "distinct (map upair (mesh_pairs n))"
proof -
  have "map upair (mesh_pairs n) = mesh_pairs n"
    by (rule upair_ordered) (auto simp: mesh_pairs_set)
  moreover have "distinct (mesh_pairs n)"
    unfolding mesh_pairs_def by (rule distinct_pairs_concat) simp_all
  ultimately show ?thesis by simp
qed

lemma sum_descending:
  "k \<le> n + 1 \<Longrightarrow> 2 * sum_list (map (\<lambda>i. n - i) [k..n]) = (n - k) * (n - k + 1)"
proof (induction k n rule: upto.induct)
  case (1 i j)
  show ?case
  proof (cases "i \<le> j")
    case True
    then have "2 * sum_list (map (\<lambda>x. j - x) [i + 1..j]) = (j - (i + 1)) * (j - (i + 1) + 1)"
      using 1 by simp
    then show ?thesis using True by (simp add: upto_rec1 [of i j] algebra_simps)
  next
    case False
    then show ?thesis using 1 by simp
  qed
qed

lemma int_sum_list: "int (sum_list (map f xs)) = sum_list (map (\<lambda>x. int (f x)) xs)"
  by (induction xs) simp_all

lemma mesh_pairs_length:
  assumes "0 \<le> n"
  shows "int (length (mesh_pairs n)) = n * (n - 1) div 2"
proof -
  have "int (length (mesh_pairs n)) = sum_list (map (\<lambda>i. int (length [i + 1..n])) [1..n])"
    by (simp add: mesh_pairs_def length_concat comp_def int_sum_list)
  also have "\<dots> = sum_list (map (\<lambda>i. n - i) [1..n])"
    by (rule arg_cong [where f = sum_list], rule map_cong) auto
  finally have "2 * int (length (mesh_pairs n)) = (n - 1) * n"
    using sum_descending [of 1 n] assms by simp
  then show ?thesis by (simp add: mult.commute)
qed

lemma star_pairs_distinct: "distinct (map upair (star_pairs n))"
proof -
  have "map upair (star_pairs n) = star_pairs n"
    by (rule upair_ordered) (auto simp: star_pairs_def)
  then show ?thesis by (simp add: star_pairs_def distinct_map inj_on_def)
qed

lemma wrpon_pairs_ordered: "\<forall>p \<in> set (wrpon_pairs n). fst p < snd p"
  by (auto simp: wrpon_pairs_def)

lemma wrpon_pairs_distinct: "distinct (map upair (wrpon_pairs n))"
proof -
  have same: "map upair (wrpon_pairs n) = wrpon_pairs n"
    by (rule upair_ordered) (rule wrpon_pairs_ordered)
  have "distinct (concat (map (\<lambda>i. map (Pair i) [n div 2 + 2..n]) [2..n div 2 + 1]))"
    by (rule distinct_pairs_concat) simp_all
  moreover have "distinct (map (Pair 1) [2..n div 2 + 1])"
    by (simp add: distinct_map inj_on_def)
  ultimately have "distinct (wrpon_pairs n)"
    by (auto simp: wrpon_pairs_def)
  then show ?thesis by (simp only: same)
qed

lemma wrpon_pairs_bounds:
  "\<forall>p \<in> set (wrpon_pairs n). 1 \<le> fst p \<and> fst p \<le> n \<and> 1 \<le> snd p \<and> snd p \<le> n"
  by (auto simp: wrpon_pairs_def)

lemma length_pairs_concat:
  "length (concat (map (\<lambda>i. map (Pair i) js) is)) = length is * length js"
  by (induction "is") simp_all

lemma Ring_graph:
  "3 \<le> n \<Longrightarrow> create_topology n ''Ring'' = \<lparr>nodes = [1..n], edge_list = unset (ring_pairs n)\<rparr>"
  unfolding create_topology_Ring
  by (intro add_edges_initial ring_pairs_bounds ring_pairs_distinct) simp_all

lemma Mesh_graph:
  "create_topology n ''Mesh'' = \<lparr>nodes = [1..n], edge_list = unset (mesh_pairs n)\<rparr>"
  unfolding create_topology_Mesh
  by (intro add_edges_initial mesh_pairs_distinct) (auto simp: mesh_pairs_set)

lemma star_graph:
  "add_edges (initial n) (star_pairs n) = \<lparr>nodes = [1..n], edge_list = unset (star_pairs n)\<rparr>"
  by (intro add_edges_initial star_pairs_distinct) (auto simp: star_pairs_def)

lemma WRPON_graph:
  "create_topology n ''WRPON'' = \<lparr>nodes = [1..n], edge_list = unset (wrpon_pairs n)\<rparr>"
  unfolding create_topology_WRPON
  by (intro add_edges_initial wrpon_pairs_distinct wrpon_pairs_bounds)

lemma map_fst_unset: "map fst (unset ps) = ps"
  by (simp add: unset_def comp_def)

lemma length_unset: "length (unset ps) = length ps"
  by (simp add: unset_def)

lemma star_kind_graph:
  assumes "k \<in> {''Star'', ''PON'', ''Broadcast Select PON''}"
  shows "create_topology n k = \<lparr>nodes = [1..n], edge_list = unset (star_pairs n)\<rparr>"
  using assms create_topology_Star create_topology_PON create_topology_BSPON star_graph
  by auto

section \<open>Link counts of the topologies\<close>

text \<open>
  Claim C1. For every \<open>N\<close> from 3 to 15: Mesh has \<open>N * (N - 1) / 2\<close> links, one for every
  pair \<open>i < j\<close>; Star, PON and Broadcast Select PON have \<open>N - 1\<close> links, all of them
  incident to node 1 (they are the pairs \<open>(1, i)\<close> for \<open>i\<close> from 2 to \<open>N\<close>); Ring has \<open>N\<close>
  links on the nodes 1 to \<open>N\<close>, namely \<open>(1, 2), (2, 3), \<dots>, (N - 1, N), (N, 1)\<close>: the
  cycle that visits every node once.
\<close>

theorem create_topology_link_counts:
  assumes "3 \<le> N" and "N \<le> 15"
  shows "int (length (edge_list (create_topology N ''Mesh''))) = N * (N - 1) div 2
       \<and> set (map fst (edge_list (create_topology N ''Mesh''))) = {(i, j). 1 \<le> i \<and> i < j \<and> j \<le> N}
       \<and> (\<forall>k \<in> {''Star'', ''PON'', ''Broadcast Select PON''}.
             int (length (edge_list (create_topology N k))) = N - 1
           \<and> list_all (incident 1) (edge_list (create_topology N k))
           \<and> map fst (edge_list (create_topology N k)) = map (Pair 1) [2..N])
       \<and> int (length (edge_list (create_topology N ''Ring''))) = N
       \<and> nodes (create_topology N ''Ring'') = [1..N]
       \<and> map fst (edge_list (create_topology N ''Ring''))
           = map (\<lambda>i. (i, i + 1)) [1..N - 1] @ [(N, 1)]"
proof -
  have mesh_len: "int (length (edge_list (create_topology N ''Mesh''))) = N * (N - 1) div 2"
    using assms by (simp add: Mesh_graph length_unset mesh_pairs_length)
  have mesh_set: "set (map fst (edge_list (create_topology N ''Mesh'')))
      = {(i, j). 1 \<le> i \<and> i < j \<and> j \<le> N}"
    by (simp only: Mesh_graph graph.simps map_fst_unset mesh_pairs_set)
  have star: "int (length (edge_list (create_topology N k))) = N - 1
           \<and> list_all (incident 1) (edge_list (create_topology N k))
           \<and> map fst (edge_list (create_topology N k)) = map (Pair 1) [2..N]"
    if "k \<in> {''Star'', ''PON'', ''Broadcast Select PON''}" for k
  proof -
    have "int (length [2..N]) = N - 1"
      using assms by simp
    then show ?thesis
      by (simp add: star_kind_graph [OF that] unset_def star_pairs_def list_all_iff incident_def)
  qed
  have ring: "map fst (edge_list (create_topology N ''Ring''))
      = map (\<lambda>i. (i, i + 1)) [1..N - 1] @ [(N, 1)]"
    using assms by (simp add: Ring_graph map_fst_unset ring_pairs_unfold)
  have "int (length (map fst (edge_list (create_topology N ''Ring'')))) = N"
    unfolding ring using assms by simp
  then have ring_len: "int (length (edge_list (create_topology N ''Ring''))) = N"
    by simp
  have ring_nodes: "nodes (create_topology N ''Ring'') = [1..N]"
    using assms by (simp add: Ring_graph)
  from mesh_len mesh_set star ring_len ring_nodes ring show ?thesis
    by blast
qed

theorem create_topology_link_counts_witness:
  "(3::int) \<le> 3 \<and> (3::int) \<le> 15
   \<and> length (edge_list (create_topology 3 ''Mesh'')) = 3
   \<and> length (edge_list (create_topology 3 ''Star'')) = 2
   \<and> map fst (edge_list (create_topology 3 ''PON'')) = [(1, 2), (1, 3)]
   \<and> map fst (edge_list (create_topology 3 ''Ring'')) = [(1, 2), (2, 3), (3, 1)]"
  using create_topology_link_counts [of 3]
  by (simp add: upto.simps)

section \<open>The WRPON topology\<close>

text \<open>
  Claim C2. For every \<open>N \<ge> 1\<close>, WRPON keeps the nodes 1 to \<open>N\<close>; its links are the pairs
  \<open>(1, r)\<close> for every router \<open>r\<close> followed by the pairs \<open>(r, t)\<close> for every router \<open>r\<close> and
  every terminal \<open>t\<close>, where the routers are the nodes 2 to \<open>N div 2 + 1\<close> and the terminals
  the nodes \<open>N div 2 + 2\<close> to \<open>N\<close>; the two halves are disjoint and make up the nodes 2 to
  \<open>N\<close>. For \<open>N = 10\<close> the routers are 2 to 6, the terminals 7 to 10, and there are 25
  links. With \<open>N = 1\<close> both halves are empty and with \<open>N = 2\<close> the terminals are: the loops
  over an empty half add nothing and a graph is returned.
\<close>

theorem wrpon_links:
  assumes "1 \<le> N"
  shows "nodes (create_topology N ''WRPON'') = [1..N]
       \<and> map fst (edge_list (create_topology N ''WRPON''))
           = map (Pair 1) [2..N div 2 + 1]
             @ concat (map (\<lambda>r. map (Pair r) [N div 2 + 2..N]) [2..N div 2 + 1])
       \<and> set [2..N div 2 + 1] \<union> set [N div 2 + 2..N] = {2..N}
       \<and> set [2..N div 2 + 1] \<inter> set [N div 2 + 2..N] = {}
       \<and> int (length (edge_list (create_topology N ''WRPON'')))
           = N div 2 + N div 2 * (N - N div 2 - 1)
       \<and> [2..10 div 2 + 1] = [2, 3, 4, 5, 6 :: int]
       \<and> [10 div 2 + 2..10] = [7, 8, 9, 10 :: int]
       \<and> length (edge_list (create_topology 10 ''WRPON'')) = 25
       \<and> create_topology 1 ''WRPON'' = \<lparr>nodes = [1], edge_list = []\<rparr>
       \<and> create_topology 2 ''WRPON'' = \<lparr>nodes = [1, 2], edge_list = [((1, 2), None)]\<rparr>"
proof -
  have nodes: "nodes (create_topology N ''WRPON'') = [1..N]"
    by (simp add: WRPON_graph)
  have links: "map fst (edge_list (create_topology N ''WRPON''))
           = map (Pair 1) [2..N div 2 + 1]
             @ concat (map (\<lambda>r. map (Pair r) [N div 2 + 2..N]) [2..N div 2 + 1])"
    by (simp add: WRPON_graph map_fst_unset wrpon_pairs_def)
  have halves: "set [2..N div 2 + 1] \<union> set [N div 2 + 2..N] = {2..N}"
    using assms by auto
  have disjoint: "set [2..N div 2 + 1] \<inter> set [N div 2 + 2..N] = {}"
    by auto
  have lr: "int (length [2..N div 2 + 1]) = N div 2"
    using assms by simp
  have "N div 2 < N"
    using assms by linarith
  then have lt: "int (length [N div 2 + 2..N]) = N - N div 2 - 1"
    by simp
  have "int (length (wrpon_pairs N)) = N div 2 + N div 2 * (N - N div 2 - 1)"
    unfolding wrpon_pairs_def length_append length_map length_pairs_concat of_nat_add of_nat_mult
    by (simp only: lr lt)
  then have count: "int (length (edge_list (create_topology N ''WRPON'')))
           = N div 2 + N div 2 * (N - N div 2 - 1)"
    by (simp add: WRPON_graph length_unset)
  have r10: "[2..10 div 2 + 1] = [2, 3, 4, 5, 6 :: int]"
    by (simp add: upto.simps)
  have t10: "[10 div 2 + 2..10] = [7, 8, 9, 10 :: int]"
    by (simp add: upto.simps)
  have "length (wrpon_pairs 10) = 25"
    unfolding wrpon_pairs_def length_append length_map length_pairs_concat r10 t10 by simp
  then have c10: "length (edge_list (create_topology 10 ''WRPON'')) = 25"
    by (simp add: WRPON_graph length_unset)
  have one: "create_topology 1 ''WRPON'' = \<lparr>nodes = [1], edge_list = []\<rparr>"
    by (simp add: WRPON_graph wrpon_pairs_def unset_def upto.simps)
  have two: "create_topology 2 ''WRPON'' = \<lparr>nodes = [1, 2], edge_list = [((1, 2), None)]\<rparr>"
    by (simp add: WRPON_graph wrpon_pairs_def unset_def upto.simps)
  from nodes links halves disjoint count r10 t10 c10 one two show ?thesis
    by blast
qed

theorem wrpon_links_witness:
  "(1::int) \<le> 3
   \<and> nodes (create_topology 3 ''WRPON'') = [1, 2, 3]
   \<and> map fst (edge_list (create_topology 3 ''WRPON'')) = [(1, 2), (2, 3)]"
  using wrpon_links [of 3] by (simp add: upto.simps)

section \<open>QoS estimate\<close>

lemma round_to_double_exact:
  assumes "0 \<le> m" and "m \<le> 2 ^ 53"
  shows "round_to_double m = m"
proof (cases "m < 2 ^ 53")
  case True
  then have "bitlen m \<le> 53"
    by (simp add: bitlen_le_iff_power)
  then show ?thesis
    by (simp add: round_to_double_def)
next
  case False
  with assms have m: "m = 9007199254740992"
    by simp
  have b: "bitlen 9007199254740992 = 54"
    using bitlen_twopow_add_eq [of 0 53] by simp
  show ?thesis
    unfolding m by (simp add: round_to_double_def b Let_def)
qed

lemma float_of_int_exact:
  assumes "\<bar>n\<bar> \<le> 2 ^ 53"
  shows "float_of_int n = Inr (of_int n)"
proof -
  have v: "round_to_double \<bar>n\<bar> = \<bar>n\<bar>"
    using assms by (intro round_to_double_exact) simp_all
  have "\<bar>n\<bar> < 2 ^ 1024"
    using assms by (rule order_le_less_trans) simp
  moreover have "sgn n * \<bar>n\<bar> = n"
    by (simp add: sgn_if)
  ultimately show ?thesis
    by (simp add: float_of_int_def v Let_def del: of_int_mult)
qed

text \<open>
  Claim C3 says that with conversion the latency is \<open>hops * 0.5\<close> for every integer
  \<open>hops \<ge> 1\<close>. The product is a float: for \<open>hops = 2^53 + 1\<close> the conversion rounds to
  \<open>2^53\<close> and the latency is \<open>2^52\<close>, not \<open>(2^53 + 1) / 2\<close>; for \<open>hops = 2^1024\<close> the
  conversion raises \<^verbatim>\<open>OverflowError\<close> and nothing is returned.
\<close>

theorem qos_metrics_large_hops:
  "qos_metrics 30 9007199254740993 True = Inr (4503599627370496, 40)
   \<and> (4503599627370496 :: rat) \<noteq> of_int 9007199254740993 * (1 / 2)
   \<and> qos_metrics 30 (2 ^ 1024) True = Inl OverflowError"
proof -
  have b: "bitlen 9007199254740993 = 54"
    using bitlen_twopow_add_eq [of 1 53] by simp
  have rounded: "qos_metrics 30 9007199254740993 True = Inr (4503599627370496, 40)"
    by (simp add: qos_metrics_def float_of_int_def round_to_double_def b Let_def)
  have c: "bitlen (2 ^ 1024) = 1025"
    using bitlen_twopow_add_eq [of 0 1024] by simp
  have raised: "qos_metrics 30 (2 ^ 1024) True = Inl OverflowError"
    using c by (simp add: qos_metrics_def float_of_int_def round_to_double_def Let_def)
  have "(4503599627370496 :: rat) \<noteq> of_int 9007199254740993 * (1 / 2)"
    by simp
  with rounded raised show ?thesis
    by (intro conjI)
qed

text \<open>
  Claim C3, as the code has it: for a traffic load from 0 to 100 and at least one hop, the
  latency is half the hop count with wavelength conversion as long as the hop count is at
  most \<open>2^53\<close>, and the hop count itself without conversion; the throughput is
  \<open>max 0 (100 - 2 * load)\<close>; the four sample values of the specification are as stated.
\<close>

theorem qos_metrics_values:
  assumes "0 \<le> traffic_load" and "traffic_load \<le> 100" and "1 \<le> hops"
  shows "(hops \<le> 2 ^ 53 \<longrightarrow>
            qos_metrics traffic_load hops True
              = Inr (of_int hops * (1 / 2), max 0 (100 - traffic_load * 2)))
       \<and> qos_metrics traffic_load hops False
           = Inr (of_int hops * 1, max 0 (100 - traffic_load * 2))
       \<and> qos_metrics 30 4 True = Inr (2, 40)
       \<and> qos_metrics 30 4 False = Inr (4, 40)
       \<and> qos_metrics 100 4 True = Inr (2, 0)
       \<and> qos_metrics 0 1 False = Inr (1, 100)"
proof -
  have with_conv: "qos_metrics t h True = Inr (of_int h * (1 / 2), max 0 (100 - t * 2))"
    if "1 \<le> h" "h \<le> 2 ^ 53" for t h
  proof -
    have "\<bar>h\<bar> \<le> 2 ^ 53"
      using that by simp
    then have "float_of_int h = Inr (of_int h)"
      by (rule float_of_int_exact)
    then show ?thesis
      by (simp add: qos_metrics_def)
  qed
  have without: "qos_metrics t h False = Inr (of_int h * 1, max 0 (100 - t * 2))" for t h
    by (simp add: qos_metrics_def)
  have s1: "qos_metrics 30 4 True = Inr (2, 40)"
    using with_conv [of 4 30] by simp
  have s2: "qos_metrics 30 4 False = Inr (4, 40)"
    using without [of 30 4] by simp
  have s3: "qos_metrics 100 4 True = Inr (2, 0)"
    using with_conv [of 4 100] by simp
  have s4: "qos_metrics 0 1 False = Inr (1, 100)"
    using without [of 0 1] by simp
  from with_conv [OF assms(3)] without s1 s2 s3 s4 show ?thesis
    by simp
qed

theorem qos_metrics_values_witness:
  "(0::int) \<le> 50 \<and> (50::int) \<le> 100 \<and> (1::int) \<le> 3 \<and> (3::int) \<le> 2 ^ 53
   \<and> qos_metrics 50 3 True = Inr (3 / 2, 0) \<and> qos_metrics 50 3 False = Inr (3, 0)"
  using qos_metrics_values [of 50 3] by simp

section \<open>Unrecognised kinds and node counts below one\<close>

text \<open>
  Claim C10. For \<open>N \<ge> 1\<close> and a kind string other than the six that \<open>create_topology\<close>
  compares against, the result has the nodes 1 to \<open>N\<close> and no link; nothing is raised.
\<close>

theorem unknown_kind_no_links:
  assumes "1 \<le> N"
    and "topology_type \<notin> {''Ring'', ''Mesh'', ''Star'', ''PON'', ''WRPON'', ''Broadcast Select PON''}"
  shows "create_topology N topology_type = \<lparr>nodes = [1..N], edge_list = []\<rparr>"
  using assms(2) by (simp add: create_topology_other initial_def)

theorem unknown_kind_no_links_witness:
  "(1::int) \<le> 3
   \<and> ''Bus'' \<notin> {''Ring'', ''Mesh'', ''Star'', ''PON'', ''WRPON'', ''Broadcast Select PON''}
   \<and> create_topology 3 ''Bus'' = \<lparr>nodes = [1, 2, 3], edge_list = []\<rparr>"
  using unknown_kind_no_links [of 3 "''Bus''"] by (simp add: upto.simps)

text \<open>
  Claim C8 says that a node count below one is rejected with an error. \<open>create_topology\<close>
  has no such check: for \<open>N = 0\<close> and kind Ring it returns the graph without nodes.
\<close>

theorem nonpositive_count_returns_graph: "create_topology 0 ''Ring'' = \<lparr>nodes = [], edge_list = []\<rparr>"
  by (simp add: create_topology_def py_range_def add_nodes_from_def empty_graph_def)

text \<open>
  Claim C8, as the code has it: for every kind and every \<open>N < 1\<close>, \<open>create_topology\<close>
  returns the empty graph (no node, no link).
\<close>

theorem nonpositive_count_empty_graph:
  assumes "N < 1"
  shows "create_topology N topology_type = \<lparr>nodes = [], edge_list = []\<rparr>"
proof -
  have "N div 2 < 1"
    using assms by linarith
  then have r3: "py_range 2 (N div 2 + 2) = []"
    by (simp add: py_range_def)
  have r1: "py_range 1 (N + 1) = []" and r2: "py_range 2 (N + 1) = []"
    using assms by (simp_all add: py_range_def)
  show ?thesis
    by (simp add: create_topology_def Let_def r1 r2 r3 add_nodes_from_def empty_graph_def)
qed

theorem nonpositive_count_empty_graph_witness:
  "(- 2 :: int) < 1 \<and> create_topology (- 2) ''WRPON'' = \<lparr>nodes = [], edge_list = []\<rparr>"
  using nonpositive_count_empty_graph [of "- 2" "''WRPON''"] by simp

section \<open>Wavelength assignment\<close>

lemma fst_set_attr: "fst (set_attr u v w e) = fst e"
  by (simp add: set_attr_def)

lemma has_edge_fst: "map fst (edge_list G') = map fst (edge_list G) \<Longrightarrow> has_edge G' u v = has_edge G u v"
proof -
  assume "map fst (edge_list G') = map fst (edge_list G)"
  then have "fst ` set (edge_list G') = fst ` set (edge_list G)"
    by (metis set_map)
  then show ?thesis by (simp add: has_edge_iff)
qed

lemma choice_nonempty:
  "ws \<noteq> [] \<Longrightarrow> \<exists>x \<in> set ws. choice ws r = Inr x"
  by (simp add: choice_def)

lemma assign_loop_result:
  assumes "ws \<noteq> []"
    and "\<forall>p \<in> set es. has_edge G (fst p) (snd p)"
  shows "\<exists>G'. assign_loop G ws rnd k es = Inr G'
            \<and> nodes G' = nodes G
            \<and> list_all2 (\<lambda>e e'. fst e' = fst e
                 \<and> (if \<exists>p \<in> set es. matches p e then labelled ws e' else snd e' = snd e))
                 (edge_list G) (edge_list G')"
  using assms(2)
proof (induction es arbitrary: G k)
  case Nil
  then show ?case by (simp add: list_all2_same)
next
  case (Cons p es)
  obtain x where x: "x \<in> set ws" "choice ws (rnd k) = Inr x"
    using choice_nonempty [OF assms(1)] by blast
  let ?G1 = "G\<lparr>edge_list := map (set_attr (fst p) (snd p) (Some x)) (edge_list G)\<rparr>"
  have sw: "set_wavelength G (fst p) (snd p) x = Inr ?G1"
    using Cons.prems by (simp add: set_wavelength_def)
  have "map fst (edge_list ?G1) = map fst (edge_list G)"
    by (simp add: fst_set_attr comp_def)
  then have "has_edge ?G1 u v = has_edge G u v" for u v
    by (rule has_edge_fst)
  with Cons.prems have "\<forall>q \<in> set es. has_edge ?G1 (fst q) (snd q)"
    by (metis list.set_intros(2))
  from Cons.IH [OF this, of "Suc k"]
  obtain G' where G': "assign_loop ?G1 ws rnd (Suc k) es = Inr G'" "nodes G' = nodes ?G1"
    "list_all2 (\<lambda>e e'. fst e' = fst e
        \<and> (if \<exists>q \<in> set es. matches q e then labelled ws e' else snd e' = snd e))
      (edge_list ?G1) (edge_list G')"
    by blast
  have step: "fst e' = fst e
      \<and> (if \<exists>q \<in> set (p # es). matches q e then labelled ws e' else snd e' = snd e)"
    if "fst e' = fst (set_attr (fst p) (snd p) (Some x) e)
      \<and> (if \<exists>q \<in> set es. matches q (set_attr (fst p) (snd p) (Some x) e)
          then labelled ws e' else snd e' = snd (set_attr (fst p) (snd p) (Some x) e))"
    for e e'
  proof (cases "matches p e")
    case True
    then have "set_attr (fst p) (snd p) (Some x) e = (fst e, Some x)"
      by (auto simp: set_attr_def matches_def)
    then show ?thesis
      using that True x(1) by (auto simp: labelled_def list_ex_iff split: if_splits)
  next
    case False
    then have "set_attr (fst p) (snd p) (Some x) e = e"
      by (auto simp: set_attr_def matches_def)
    then show ?thesis
      using that False by (auto split: if_splits)
  qed
  have "list_all2 (\<lambda>e e'. fst e' = fst e
        \<and> (if \<exists>q \<in> set (p # es). matches q e then labelled ws e' else snd e' = snd e))
      (edge_list G) (edge_list G')"
  proof (rule list_all2_mono)
    show "list_all2 (\<lambda>e e'. fst e' = fst (set_attr (fst p) (snd p) (Some x) e)
      \<and> (if \<exists>q \<in> set es. matches q (set_attr (fst p) (snd p) (Some x) e)
          then labelled ws e' else snd e' = snd (set_attr (fst p) (snd p) (Some x) e)))
       (edge_list G) (edge_list G')"
      using G'(3) by (simp add: list_all2_map1)
  qed (rule step)
  moreover have "assign_loop G ws rnd k (p # es) = Inr G'"
    using x(2) sw G'(1) by simp
  moreover have "nodes G' = nodes G"
    using G'(2) by simp
  ultimately show ?case by blast
qed

lemma nbrs_iff:
  "m \<in> set (nbrs G n) \<longleftrightarrow> (\<exists>e \<in> set (edge_list G). fst e = (n, m) \<or> fst e = (m, n))"
  by (auto simp: nbrs_def prod_eq_iff split: if_splits)

lemma nbrs_has_edge: "m \<in> set (nbrs G n) \<longleftrightarrow> has_edge G n m"
  by (simp add: nbrs_iff has_edge_def list_ex_iff)

lemma edges_from_sound:
  "p \<in> set (edges_from G seen ns) \<Longrightarrow> has_edge G (fst p) (snd p)"
  by (induction ns arbitrary: seen) (auto simp: nbrs_has_edge)

lemma edges_from_cover:
  assumes "e \<in> set (edge_list G)"
  shows "fst (fst e) \<notin> set seen \<Longrightarrow> snd (fst e) \<notin> set seen \<Longrightarrow>
         fst (fst e) \<in> set ns \<or> snd (fst e) \<in> set ns \<Longrightarrow>
         \<exists>p \<in> set (edges_from G seen ns). matches p e"
proof (induction ns arbitrary: seen)
  case Nil
  then show ?case by simp
next
  case (Cons n ns)
  obtain a b where ab: "fst e = (a, b)"
    by (cases "fst e")
  show ?case
  proof (cases "n = a \<or> n = b")
    case True
    then consider "n = a" | "n = b"
      by blast
    then show ?thesis
    proof cases
      case 1
      have "b \<in> set (nbrs G n)"
        using assms ab 1 by (auto simp: nbrs_iff)
      then have "(a, b) \<in> set (edges_from G seen (n # ns))"
        using Cons.prems(2) ab 1 by simp
      moreover have "matches (a, b) e"
        using ab by (simp add: matches_def)
      ultimately show ?thesis by blast
    next
      case 2
      have "a \<in> set (nbrs G n)"
        using assms ab 2 by (auto simp: nbrs_iff)
      then have "(b, a) \<in> set (edges_from G seen (n # ns))"
        using Cons.prems(1) ab 2 by simp
      moreover have "matches (b, a) e"
        using ab by (simp add: matches_def)
      ultimately show ?thesis by blast
    qed
  next
    case False
    then have "\<exists>p \<in> set (edges_from G (n # seen) ns). matches p e"
      using Cons.prems ab by (intro Cons.IH) auto
    then show ?thesis by auto
  qed
qed

lemma edges_cover:
  assumes "endpoints_ok G" and "e \<in> set (edge_list G)"
  shows "\<exists>p \<in> set (edges G). matches p e"
proof -
  have "fst (fst e) \<in> set (nodes G)"
    using assms by (auto simp: endpoints_ok_def list_all_iff)
  then show ?thesis
    unfolding edges_def using assms(2) by (intro edges_from_cover) simp_all
qed

lemma edges_from_no_links: "edge_list G = [] \<Longrightarrow> edges_from G seen ns = []"
  by (induction ns arbitrary: seen) (simp_all add: nbrs_def)

lemma edges_empty_iff:
  assumes "endpoints_ok G"
  shows "edges G = [] \<longleftrightarrow> edge_list G = []"
proof
  assume "edges G = []"
  show "edge_list G = []"
  proof (rule ccontr)
    assume "edge_list G \<noteq> []"
    then obtain e where "e \<in> set (edge_list G)"
      by (cases "edge_list G") auto
    from edges_cover [OF assms this] show False
      using \<open>edges G = []\<close> by simp
  qed
next
  assume "edge_list G = []"
  then show "edges G = []"
    by (simp add: edges_def edges_from_no_links)
qed

lemma assign_wavelengths_result:
  assumes "endpoints_ok G" and "wavelengths \<noteq> []"
  shows "\<exists>G'. assign_wavelengths G wavelengths rnd = Inr G'
            \<and> nodes G' = nodes G
            \<and> map fst (edge_list G') = map fst (edge_list G)
            \<and> length (edge_list G') = length (edge_list G)
            \<and> list_all (labelled wavelengths) (edge_list G')"
proof -
  have "\<forall>p \<in> set (edges G). has_edge G (fst p) (snd p)"
    by (simp add: edges_def edges_from_sound)
  from assign_loop_result [OF assms(2) this, of rnd 0]
  obtain G' where G': "assign_loop G wavelengths rnd 0 (edges G) = Inr G'" "nodes G' = nodes G"
    "list_all2 (\<lambda>e e'. fst e' = fst e
        \<and> (if \<exists>p \<in> set (edges G). matches p e then labelled wavelengths e' else snd e' = snd e))
      (edge_list G) (edge_list G')"
    by blast
  have len: "length (edge_list G') = length (edge_list G)"
    using G'(3) by (simp add: list_all2_lengthD)
  have at: "fst (edge_list G' ! i) = fst (edge_list G ! i) \<and> labelled wavelengths (edge_list G' ! i)"
    if "i < length (edge_list G)" for i
  proof -
    have "edge_list G ! i \<in> set (edge_list G)"
      using that by simp
    then have "\<exists>p \<in> set (edges G). matches p (edge_list G ! i)"
      by (rule edges_cover [OF assms(1)])
    then show ?thesis
      using list_all2_nthD [OF G'(3) that] by simp
  qed
  have "map fst (edge_list G') = map fst (edge_list G)"
    using len at by (intro nth_equalityI) simp_all
  moreover have "list_all (labelled wavelengths) (edge_list G')"
    using len at by (simp add: list_all_length)
  ultimately show ?thesis
    using G'(1,2) len by (simp add: assign_wavelengths_def)
qed

lemma assign_wavelengths_no_labels:
  assumes "endpoints_ok G"
  shows "assign_wavelengths G [] rnd = (if edge_list G = [] then Inr G else Inl IndexError)"
proof (cases "edges G")
  case Nil
  then show ?thesis
    using edges_empty_iff [OF assms] by (simp add: assign_wavelengths_def)
next
  case (Cons p es)
  then have "edge_list G \<noteq> []"
    using edges_empty_iff [OF assms] by simp
  then show ?thesis
    using Cons by (simp add: assign_wavelengths_def choice_def)
qed

section \<open>The endpoint invariant and node failure\<close>

lemma endpoints_ok_iff:
  "endpoints_ok G \<longleftrightarrow>
     (\<forall>p \<in> set (map fst (edge_list G)). fst p \<in> set (nodes G) \<and> snd p \<in> set (nodes G))"
  by (simp add: endpoints_ok_def list_all_iff)

lemma endpoints_ok_same_links:
  "nodes G' = nodes G \<Longrightarrow> map fst (edge_list G') = map fst (edge_list G) \<Longrightarrow>
   endpoints_ok G' = endpoints_ok G"
  by (simp only: endpoints_ok_iff)

lemma assign_wavelengths_endpoints:
  assumes "endpoints_ok H" and "assign_wavelengths H ws rnd = Inr H'"
  shows "endpoints_ok H'"
proof (cases "ws = []")
  case True
  have "assign_wavelengths H [] rnd = (if edge_list H = [] then Inr H else Inl IndexError)"
    by (rule assign_wavelengths_no_labels [OF assms(1)])
  with assms(2) True have "(if edge_list H = [] then Inr H else Inl IndexError) = Inr H'"
    by simp
  then have "H = H'"
    by (cases "edge_list H = []") simp_all
  with assms(1) show ?thesis by simp
next
  case False
  from assign_wavelengths_result [OF assms(1) False, of rnd]
  obtain K where K: "assign_wavelengths H ws rnd = Inr K" "nodes K = nodes H"
    "map fst (edge_list K) = map fst (edge_list H)"
    by blast
  from K(1) assms(2) have "K = H'"
    by simp
  with K(2,3) have "endpoints_ok H' = endpoints_ok H"
    by (intro endpoints_ok_same_links) simp_all
  with assms(1) show ?thesis by simp
qed

lemma simulate_node_failure_present:
  "v \<in> set (nodes G) \<Longrightarrow>
   simulate_node_failure G v
     = Inr \<lparr>nodes = removeAll v (nodes G),
            edge_list = filter (\<lambda>e. \<not> incident v e) (edge_list G)\<rparr>"
  by (simp add: simulate_node_failure_def remove_node_def)

lemma simulate_node_failure_absent:
  "v \<notin> set (nodes G) \<Longrightarrow> simulate_node_failure G v = Inr G"
  by (simp add: simulate_node_failure_def)

lemma simulate_node_failure_gone:
  "simulate_node_failure G v = Inr G' \<Longrightarrow> v \<notin> set (nodes G')"
  by (cases "v \<in> set (nodes G)")
     (auto simp: simulate_node_failure_present simulate_node_failure_absent)

lemma simulate_node_failure_endpoints:
  assumes "endpoints_ok G"
  shows "\<exists>G'. simulate_node_failure G v = Inr G' \<and> endpoints_ok G'"
proof (cases "v \<in> set (nodes G)")
  case True
  have "endpoints_ok \<lparr>nodes = removeAll v (nodes G),
            edge_list = filter (\<lambda>e. \<not> incident v e) (edge_list G)\<rparr>"
    using assms by (auto simp: endpoints_ok_def list_all_iff incident_def)
  then show ?thesis
    using True by (simp add: simulate_node_failure_present)
next
  case False
  then show ?thesis
    using assms by (simp add: simulate_node_failure_absent)
qed

lemma nodes_add_edge:
  "u \<in> set (nodes G) \<Longrightarrow> v \<in> set (nodes G) \<Longrightarrow> nodes (add_edge G u v w) = nodes G"
  by (simp add: add_edge_def add_node_present Let_def)

lemma nodes_add_edges:
  "\<forall>p \<in> set ps. fst p \<in> set (nodes G) \<and> snd p \<in> set (nodes G) \<Longrightarrow>
   nodes (add_edges G ps) = nodes G"
proof (induction ps arbitrary: G)
  case Nil
  then show ?case by (simp add: add_edges_def)
next
  case (Cons p ps)
  have eq: "nodes (add_edge G (fst p) (snd p) None) = nodes G"
    using Cons.prems by (simp add: nodes_add_edge)
  have "nodes (add_edges (add_edge G (fst p) (snd p) None) ps)
      = nodes (add_edge G (fst p) (snd p) None)"
    using Cons.prems by (intro Cons.IH) (simp add: eq)
  then show ?case
    using eq by (simp add: add_edges_def)
qed

lemma ring_pairs_bounds_all:
  "\<forall>p \<in> set (ring_pairs n). 1 \<le> fst p \<and> fst p \<le> n \<and> 1 \<le> snd p \<and> snd p \<le> n"
proof (cases "1 \<le> n")
  case True
  then show ?thesis by (rule ring_pairs_bounds)
next
  case False
  then show ?thesis by (simp add: ring_pairs_def)
qed

lemma nodes_add_edges_initial:
  "\<forall>p \<in> set ps. 1 \<le> fst p \<and> fst p \<le> n \<and> 1 \<le> snd p \<and> snd p \<le> n \<Longrightarrow>
   nodes (add_edges (initial n) ps) = [1..n]"
proof -
  assume "\<forall>p \<in> set ps. 1 \<le> fst p \<and> fst p \<le> n \<and> 1 \<le> snd p \<and> snd p \<le> n"
  then have "nodes (add_edges (initial n) ps) = nodes (initial n)"
    by (intro nodes_add_edges) (simp add: initial_def)
  then show ?thesis by (simp add: initial_def)
qed

lemma kind_cases:
  assumes "k = ''Ring'' \<Longrightarrow> P" and "k = ''Mesh'' \<Longrightarrow> P"
    and "k \<in> {''Star'', ''PON'', ''Broadcast Select PON''} \<Longrightarrow> P"
    and "k = ''WRPON'' \<Longrightarrow> P"
    and "k \<notin> {''Ring'', ''Mesh'', ''Star'', ''PON'', ''WRPON'', ''Broadcast Select PON''} \<Longrightarrow> P"
  shows P
proof (cases "k = ''Ring'' \<or> k = ''Mesh'' \<or> k = ''WRPON''")
  case True
  then show ?thesis using assms(1,2,4) by (elim disjE)
next
  case outer: False
  show ?thesis
  proof (cases "k = ''Star'' \<or> k = ''PON'' \<or> k = ''Broadcast Select PON''")
    case True
    then have "k \<in> {''Star'', ''PON'', ''Broadcast Select PON''}"
      by (simp only: insert_iff empty_iff simp_thms)
    then show ?thesis by (rule assms(3))
  next
    case False
    with outer have "k \<notin> {''Ring'', ''Mesh'', ''Star'', ''PON'', ''WRPON'', ''Broadcast Select PON''}"
      by (simp only: insert_iff empty_iff de_Morgan_disj simp_thms)
    then show ?thesis by (rule assms(5))
  qed
qed

lemma nodes_create_topology: "nodes (create_topology n k) = [1..n]"
proof (cases k rule: kind_cases)
  case 1
  have "nodes (create_topology n ''Ring'') = [1..n]"
    unfolding create_topology_Ring by (rule nodes_add_edges_initial) (rule ring_pairs_bounds_all)
  with 1 show ?thesis by (simp only:)
next
  case 2
  then show ?thesis by (simp only: Mesh_graph graph.simps)
next
  case 3
  then show ?thesis by (simp only: star_kind_graph graph.simps)
next
  case 4
  then show ?thesis by (simp only: WRPON_graph graph.simps)
next
  case 5
  then have "create_topology n k = initial n"
    by (rule create_topology_other)
  then show ?thesis by (simp add: initial_def)
qed

section \<open>Claims about assignment and failure\<close>

text \<open>
  Claim C5. For every graph whose links join present nodes and every non-empty list of
  wavelengths, \<open>assign_wavelengths\<close> returns a graph, whatever the generator draws; the
  nodes and the links (their endpoints, order and number) are those of the input, and
  every link carries a wavelength taken from the list, so none is left at \<^verbatim>\<open>None\<close>.
\<close>

theorem assign_wavelengths_labels_every_link:
  assumes "endpoints_ok G" and "wavelengths \<noteq> []"
  shows "\<exists>G'. assign_wavelengths G wavelengths rnd = Inr G'
            \<and> nodes G' = nodes G
            \<and> map fst (edge_list G') = map fst (edge_list G)
            \<and> length (edge_list G') = length (edge_list G)
            \<and> list_all (labelled wavelengths) (edge_list G')"
  using assms by (rule assign_wavelengths_result)

theorem assign_wavelengths_labels_every_link_witness:
  "endpoints_ok \<lparr>nodes = [1, 2], edge_list = [((1, 2), None)]\<rparr> \<and> [''red''] \<noteq> []
   \<and> (\<exists>G'. assign_wavelengths \<lparr>nodes = [1, 2], edge_list = [((1, 2), None)]\<rparr> [''red''] draw_first
              = Inr G'
          \<and> nodes G' = [1, 2]
          \<and> map fst (edge_list G') = [(1, 2)]
          \<and> list_all (labelled [''red'']) (edge_list G'))"
  using assign_wavelengths_labels_every_link
    [of "\<lparr>nodes = [1, 2], edge_list = [((1, 2), None)]\<rparr>" "[''red'']" draw_first]
  by (auto simp: endpoints_ok_def)

text \<open>
  Claim C7 says that an empty wavelength list always makes \<open>assign_wavelengths\<close> fail. On a
  graph without links the loop body never runs and the graph is returned.
\<close>

theorem empty_labels_no_links_no_error:
  "assign_wavelengths \<lparr>nodes = [1], edge_list = []\<rparr> [] draw_first
     = Inr \<lparr>nodes = [1], edge_list = []\<rparr>"
  by (simp add: assign_wavelengths_def edges_def nbrs_def)

text \<open>
  Claim C7, as the code has it: with an empty wavelength list, \<open>assign_wavelengths\<close> raises
  \<^verbatim>\<open>IndexError\<close> (from \<^verbatim>\<open>random.choice\<close>, at the first link) when the graph has a link, and
  returns the graph unchanged when it has none.
\<close>

theorem assign_wavelengths_empty_labels:
  assumes "endpoints_ok G"
  shows "assign_wavelengths G [] rnd = (if edge_list G = [] then Inr G else Inl IndexError)"
  using assms by (rule assign_wavelengths_no_labels)

theorem assign_wavelengths_empty_labels_witness:
  "endpoints_ok \<lparr>nodes = [1, 2], edge_list = [((1, 2), None)]\<rparr>
   \<and> assign_wavelengths \<lparr>nodes = [1, 2], edge_list = [((1, 2), None)]\<rparr> [] draw_first
       = Inl IndexError"
  using assign_wavelengths_empty_labels
    [of "\<lparr>nodes = [1, 2], edge_list = [((1, 2), None)]\<rparr>" draw_first]
  by (simp add: endpoints_ok_def)

text \<open>
  Claim C4. On a graph \<open>G\<close> and a node id \<open>v\<close>: when \<open>v\<close> is a node, \<open>simulate_node_failure\<close>
  returns a graph with one node less, in which the other nodes are kept in order and the
  links are those of \<open>G\<close> that are not incident to \<open>v\<close>, with their wavelengths; when \<open>v\<close>
  is not a node, \<open>G\<close> is returned as it is. Applying the function to its own result with
  the same id changes nothing. The id 0 is never a node of a graph that \<open>create_topology\<close>
  built, so there it changes nothing.
\<close>

theorem simulate_node_failure_effect:
  assumes "wf_graph G"
  shows "(v \<in> set (nodes G) \<longrightarrow>
            (\<exists>G'. simulate_node_failure G v = Inr G'
               \<and> length (nodes G') + 1 = length (nodes G)
               \<and> nodes G' = filter (\<lambda>u. u \<noteq> v) (nodes G)
               \<and> edge_list G' = filter (\<lambda>e. \<not> incident v e) (edge_list G)))
       \<and> (v \<notin> set (nodes G) \<longrightarrow> simulate_node_failure G v = Inr G)
       \<and> (\<forall>G'. simulate_node_failure G v = Inr G' \<longrightarrow> simulate_node_failure G' v = Inr G')
       \<and> simulate_node_failure (create_topology N k) 0 = Inr (create_topology N k)"
proof -
  have present: "\<exists>G'. simulate_node_failure G v = Inr G'
               \<and> length (nodes G') + 1 = length (nodes G)
               \<and> nodes G' = filter (\<lambda>u. u \<noteq> v) (nodes G)
               \<and> edge_list G' = filter (\<lambda>e. \<not> incident v e) (edge_list G)"
    if v: "v \<in> set (nodes G)"
  proof -
    have "distinct (nodes G)"
      using assms by (simp add: wf_graph_def)
    then have "length (removeAll v (nodes G)) = length (nodes G) - 1"
      using v by (simp add: distinct_remove1_removeAll [symmetric] length_remove1)
    moreover have "length (nodes G) > 0"
      using v by (cases "nodes G") auto
    ultimately have "length (removeAll v (nodes G)) + 1 = length (nodes G)"
      by simp
    moreover have "removeAll v (nodes G) = filter (\<lambda>u. u \<noteq> v) (nodes G)"
      by (simp add: removeAll_filter_not_eq) (metis (mono_tags, lifting) filter_cong)
    ultimately show ?thesis
      using v by (simp add: simulate_node_failure_present)
  qed
  have absent: "simulate_node_failure G v = Inr G" if "v \<notin> set (nodes G)"
    using that by (rule simulate_node_failure_absent)
  have twice: "simulate_node_failure G' v = Inr G'" if "simulate_node_failure G v = Inr G'" for G'
    using simulate_node_failure_gone [OF that] by (rule simulate_node_failure_absent)
  have "(0::int) \<notin> set (nodes (create_topology N k))"
    by (simp add: nodes_create_topology)
  then have sentinel: "simulate_node_failure (create_topology N k) 0 = Inr (create_topology N k)"
    by (rule simulate_node_failure_absent)
  from present absent twice sentinel show ?thesis
    by blast
qed

theorem simulate_node_failure_effect_witness:
  "wf_graph \<lparr>nodes = [1, 2, 3], edge_list = [((1, 2), None), ((2, 3), Some ''red'')]\<rparr>
   \<and> simulate_node_failure
        \<lparr>nodes = [1, 2, 3], edge_list = [((1, 2), None), ((2, 3), Some ''red'')]\<rparr> 1
       = Inr \<lparr>nodes = [2, 3], edge_list = [((2, 3), Some ''red'')]\<rparr>
   \<and> simulate_node_failure \<lparr>nodes = [2, 3], edge_list = [((2, 3), Some ''red'')]\<rparr> 1
       = Inr \<lparr>nodes = [2, 3], edge_list = [((2, 3), Some ''red'')]\<rparr>"
  using simulate_node_failure_effect
    [of "\<lparr>nodes = [1, 2, 3], edge_list = [((1, 2), None), ((2, 3), Some ''red'')]\<rparr>" 1]
  by (simp add: wf_graph_def endpoints_ok_def simple_links_def upair_def incident_def
      simulate_node_failure_def remove_node_def)

section \<open>Invariants of the built topologies\<close>

lemma built_graph_shape:
  assumes "k \<in> {''Ring'', ''Mesh'', ''Star'', ''PON'', ''WRPON'', ''Broadcast Select PON''}"
    and "3 \<le> N"
  shows "\<exists>ps. create_topology N k = \<lparr>nodes = [1..N], edge_list = unset ps\<rparr>
            \<and> distinct (map upair ps)
            \<and> (\<forall>p \<in> set ps. 1 \<le> fst p \<and> fst p \<le> N \<and> 1 \<le> snd p \<and> snd p \<le> N
                  \<and> fst p \<noteq> snd p)"
proof (cases k rule: kind_cases)
  case 1
  have "\<forall>p \<in> set (ring_pairs N). fst p \<noteq> snd p"
    using assms(2) by (auto simp: ring_pairs_unfold)
  moreover have "\<forall>p \<in> set (ring_pairs N). 1 \<le> fst p \<and> fst p \<le> N \<and> 1 \<le> snd p \<and> snd p \<le> N"
    by (rule ring_pairs_bounds_all)
  moreover have "distinct (map upair (ring_pairs N))"
    using assms(2) by (rule ring_pairs_distinct)
  moreover have "create_topology N k = \<lparr>nodes = [1..N], edge_list = unset (ring_pairs N)\<rparr>"
    using 1 assms(2) by (simp only: Ring_graph)
  ultimately show ?thesis by blast
next
  case 2
  have "\<forall>p \<in> set (mesh_pairs N). 1 \<le> fst p \<and> fst p \<le> N \<and> 1 \<le> snd p \<and> snd p \<le> N
      \<and> fst p \<noteq> snd p"
    by (auto simp: mesh_pairs_set)
  moreover have "distinct (map upair (mesh_pairs N))"
    by (rule mesh_pairs_distinct)
  moreover have "create_topology N k = \<lparr>nodes = [1..N], edge_list = unset (mesh_pairs N)\<rparr>"
    using 2 by (simp only: Mesh_graph)
  ultimately show ?thesis by blast
next
  case 3
  have "\<forall>p \<in> set (star_pairs N). 1 \<le> fst p \<and> fst p \<le> N \<and> 1 \<le> snd p \<and> snd p \<le> N
      \<and> fst p \<noteq> snd p"
    using assms(2) by (auto simp: star_pairs_def)
  moreover have "distinct (map upair (star_pairs N))"
    by (rule star_pairs_distinct)
  moreover have "create_topology N k = \<lparr>nodes = [1..N], edge_list = unset (star_pairs N)\<rparr>"
    using 3 by (rule star_kind_graph)
  ultimately show ?thesis by blast
next
  case 4
  have "\<forall>p \<in> set (wrpon_pairs N). fst p \<noteq> snd p"
    using wrpon_pairs_ordered [of N] by auto
  moreover have "\<forall>p \<in> set (wrpon_pairs N). 1 \<le> fst p \<and> fst p \<le> N \<and> 1 \<le> snd p \<and> snd p \<le> N"
    by (rule wrpon_pairs_bounds)
  moreover have "distinct (map upair (wrpon_pairs N))"
    by (rule wrpon_pairs_distinct)
  moreover have "create_topology N k = \<lparr>nodes = [1..N], edge_list = unset (wrpon_pairs N)\<rparr>"
    using 4 by (simp only: WRPON_graph)
  ultimately show ?thesis by blast
next
  case 5
  with assms(1) show ?thesis by (rule notE [rotated])
qed

text \<open>
  Claim C6. For each of the six kinds and every \<open>N\<close> from 3 to 15, \<open>create_topology\<close> returns
  a graph whose nodes are exactly 1 to \<open>N\<close>, whose links join present nodes, none of them
  a self-loop and no two of them the same unordered pair, and whose wavelengths are all
  \<^verbatim>\<open>None\<close>. On any graph whose links join present nodes, \<open>assign_wavelengths\<close> (which
  returns whenever the wavelength list is not empty) and \<open>simulate_node_failure\<close> (which
  always returns) give a graph whose links join present nodes.
\<close>

theorem topology_invariants:
  assumes "k \<in> {''Ring'', ''Mesh'', ''Star'', ''PON'', ''WRPON'', ''Broadcast Select PON''}"
    and "3 \<le> N" and "N \<le> 15"
  shows "nodes (create_topology N k) = [1..N]
       \<and> set (nodes (create_topology N k)) = {1..N}
       \<and> endpoints_ok (create_topology N k)
       \<and> no_self_loops (create_topology N k)
       \<and> simple_links (create_topology N k)
       \<and> list_all (\<lambda>e. snd e = None) (edge_list (create_topology N k))
       \<and> (endpoints_ok H \<longrightarrow>
             (\<forall>H'. assign_wavelengths H ws rnd = Inr H' \<longrightarrow> endpoints_ok H')
           \<and> (ws \<noteq> [] \<longrightarrow> (\<exists>H'. assign_wavelengths H ws rnd = Inr H'))
           \<and> (\<exists>H'. simulate_node_failure H v = Inr H' \<and> endpoints_ok H'))"
proof -
  obtain ps where G: "create_topology N k = \<lparr>nodes = [1..N], edge_list = unset ps\<rparr>"
    and dist: "distinct (map upair ps)"
    and ends: "\<forall>p \<in> set ps. 1 \<le> fst p \<and> fst p \<le> N \<and> 1 \<le> snd p \<and> snd p \<le> N \<and> fst p \<noteq> snd p"
    using built_graph_shape [OF assms(1,2)] by blast
  have n: "nodes (create_topology N k) = [1..N]"
    by (simp add: G)
  have s: "set (nodes (create_topology N k)) = {1..N}"
    by (simp add: G)
  have e: "endpoints_ok (create_topology N k)"
    using ends by (simp add: G endpoints_ok_def unset_def list_all_iff)
  have l: "no_self_loops (create_topology N k)"
    using ends by (simp add: G no_self_loops_def unset_def list_all_iff)
  have d: "simple_links (create_topology N k)"
    using dist by (simp add: G simple_links_def unset_def comp_def)
  have u: "list_all (\<lambda>e. snd e = None) (edge_list (create_topology N k))"
    by (simp add: G unset_def list_all_iff)
  have a: "\<forall>H'. assign_wavelengths H ws rnd = Inr H' \<longrightarrow> endpoints_ok H'" if "endpoints_ok H"
    using that assign_wavelengths_endpoints by blast
  have t: "\<exists>H'. assign_wavelengths H ws rnd = Inr H'" if "endpoints_ok H" "ws \<noteq> []"
    using assign_wavelengths_result [OF that, of rnd] by blast
  have f: "\<exists>H'. simulate_node_failure H v = Inr H' \<and> endpoints_ok H'" if "endpoints_ok H"
    using that by (rule simulate_node_failure_endpoints)
  from n s e l d u a t f show ?thesis
    by blast
qed

theorem topology_invariants_witness:
  "''Ring'' \<in> {''Ring'', ''Mesh'', ''Star'', ''PON'', ''WRPON'', ''Broadcast Select PON''}
   \<and> (3::int) \<le> 3 \<and> (3::int) \<le> 15
   \<and> endpoints_ok \<lparr>nodes = [1, 2], edge_list = [((1, 2), None)]\<rparr>
   \<and> nodes (create_topology 3 ''Ring'') = [1, 2, 3]
   \<and> endpoints_ok (create_topology 3 ''Ring'')
   \<and> no_self_loops (create_topology 3 ''Ring'')
   \<and> simple_links (create_topology 3 ''Ring'')
   \<and> (\<exists>H'. assign_wavelengths \<lparr>nodes = [1, 2], edge_list = [((1, 2), None)]\<rparr> [''red''] draw_first
              = Inr H' \<and> endpoints_ok H')
   \<and> (\<exists>H'. simulate_node_failure \<lparr>nodes = [1, 2], edge_list = [((1, 2), None)]\<rparr> 2 = Inr H'
          \<and> endpoints_ok H')"
  using topology_invariants
    [of "''Ring''" 3 "\<lparr>nodes = [1, 2], edge_list = [((1, 2), None)]\<rparr>" "[''red'']" draw_first 2]
  by (auto simp: endpoints_ok_def upto.simps)

section \<open>The end-to-end run on the ring of six nodes\<close>

lemma map_fst_survivors:
  "map fst (filter (\<lambda>e. \<not> incident v e) es)
   = filter (\<lambda>p. fst p \<noteq> v \<and> snd p \<noteq> v) (map fst es)"
  by (induction es) (simp_all add: incident_def)

lemma ring6_graph:
  "create_topology 6 ''Ring''
   = \<lparr>nodes = [1, 2, 3, 4, 5, 6],
      edge_list = unset [(1, 2), (2, 3), (3, 4), (4, 5), (5, 6), (6, 1)]\<rparr>"
  by (simp add: Ring_graph ring_pairs_unfold upto.simps)

lemma simulate_ring6:
  "\<exists>G'. simulate 6 ''Ring'' [''red'', ''green''] 3 rnd = Inr G'
      \<and> nodes G' = [1, 2, 4, 5, 6]
      \<and> map fst (edge_list G') = [(1, 2), (4, 5), (5, 6), (6, 1)]
      \<and> list_all (labelled [''red'', ''green'']) (edge_list G')"
proof -
  let ?G = "create_topology 6 ''Ring''"
  have ok: "endpoints_ok ?G"
    by (simp add: ring6_graph endpoints_ok_def unset_def)
  have ne: "[''red'', ''green''] \<noteq> []"
    by simp
  from assign_wavelengths_result [OF ok ne, of rnd]
  obtain G1 where all: "assign_wavelengths ?G [''red'', ''green''] rnd = Inr G1
      \<and> nodes G1 = nodes ?G
      \<and> map fst (edge_list G1) = map fst (edge_list ?G)
      \<and> length (edge_list G1) = length (edge_list ?G)
      \<and> list_all (labelled [''red'', ''green'']) (edge_list G1)" ..
  then have G1: "assign_wavelengths ?G [''red'', ''green''] rnd = Inr G1"
    "nodes G1 = nodes ?G" "map fst (edge_list G1) = map fst (edge_list ?G)"
    "list_all (labelled [''red'', ''green'']) (edge_list G1)"
    by simp_all
  let ?G2 = "\<lparr>nodes = removeAll 3 (nodes G1),
              edge_list = filter (\<lambda>e. \<not> incident 3 e) (edge_list G1)\<rparr>"
  have n1: "nodes G1 = [1, 2, 3, 4, 5, 6]"
    using G1(2) by (simp add: ring6_graph)
  have l1: "map fst (edge_list G1) = [(1, 2), (2, 3), (3, 4), (4, 5), (5, 6), (6, 1)]"
    using G1(3) by (simp add: ring6_graph map_fst_unset)
  have "simulate_node_failure G1 3 = Inr ?G2"
    by (rule simulate_node_failure_present) (simp add: n1)
  then have run: "simulate 6 ''Ring'' [''red'', ''green''] 3 rnd = Inr ?G2"
    by (simp add: simulate_def G1(1))
  have n2: "nodes ?G2 = [1, 2, 4, 5, 6]"
    by (simp add: n1)
  have l2: "map fst (edge_list ?G2) = [(1, 2), (4, 5), (5, 6), (6, 1)]"
    by (simp add: map_fst_survivors l1)
  have w2: "list_all (labelled [''red'', ''green'']) (edge_list ?G2)"
    using G1(4) by (simp add: list_all_iff)
  show ?thesis
    by (intro exI [of _ ?G2] conjI run n2 l2 w2)
qed

lemma upair_links: "map (\<lambda>e. upair (fst e)) es = map upair (map fst es)"
  by (simp add: comp_def)

lemma path_links_endpoints:
  "p \<in> set (path_links vs) \<Longrightarrow> fst p \<in> set vs \<and> snd p \<in> set vs"
proof -
  assume "p \<in> set (path_links vs)"
  then obtain a b where ab: "(a, b) \<in> set (zip vs (tl vs))" "p = upair (a, b)"
    by (auto simp: path_links_def)
  have "a \<in> set vs"
    using ab(1) by (rule set_zip_leftD)
  moreover have "b \<in> set vs"
    using set_zip_rightD [OF ab(1)] by (cases vs) auto
  ultimately show ?thesis
    using ab(2) by (auto simp: upair_def min_def max_def)
qed

lemma two_sides:
  fixes P Q :: "'a set"
  assumes "(a \<in> P \<and> b \<in> P) \<or> (a \<in> Q \<and> b \<in> Q)"
    and "(c \<in> P \<and> d \<in> P) \<or> (c \<in> Q \<and> d \<in> Q)"
    and "(d \<in> P \<and> e \<in> P) \<or> (d \<in> Q \<and> e \<in> Q)"
    and "(a \<in> P \<and> e \<in> P) \<or> (a \<in> Q \<and> e \<in> Q)"
    and "P \<inter> Q = {}" and "P \<union> Q \<subseteq> {a, b, c, d, e}"
  shows "P = {} \<or> Q = {}"
proof (cases "a \<in> P")
  case True
  with assms(5) have "a \<notin> Q" by blast
  with assms(1,4) have "b \<in> P" "e \<in> P" by blast+
  with assms(5) have "e \<notin> Q" by blast
  with assms(3) have "d \<in> P" by blast
  with assms(5) have "d \<notin> Q" by blast
  with assms(2) have "c \<in> P" by blast
  with True \<open>b \<in> P\<close> \<open>d \<in> P\<close> \<open>e \<in> P\<close> assms(6) have "Q \<subseteq> P" by auto
  with assms(5) show ?thesis by blast
next
  case False
  with assms(1,4) have "a \<in> Q" "b \<in> Q" "e \<in> Q" by blast+
  with assms(5) have "e \<notin> P" by blast
  with assms(3) have "d \<in> Q" by blast
  with assms(5) have "d \<notin> P" by blast
  with assms(2) have "c \<in> Q" by blast
  with \<open>a \<in> Q\<close> \<open>b \<in> Q\<close> \<open>d \<in> Q\<close> \<open>e \<in> Q\<close> assms(6) have "P \<subseteq> Q" by auto
  with assms(5) show ?thesis by blast
qed

lemma one_path_not_two:
  assumes "nodes G = [1, 2, 4, 5, 6]"
    and "map fst (edge_list G) = [(1, 2), (4, 5), (5, 6), (6, 1)]"
  shows "forms_paths G [[4, 5, 6, 1, 2]]" and "\<not> forms_paths G [p, q]"
proof -
  have links: "map (\<lambda>e. upair (fst e)) (edge_list G) = [(1, 2), (4, 5), (5, 6), (1, 6)]"
    by (simp only: upair_links assms(2)) (simp add: upair_def)
  have path: "path_links [4, 5, 6, 1, 2] = [(4, 5), (5, 6), (1, 6), (1, 2)]"
    by (simp add: path_links_def upair_def)
  have "set [4, 5, 6, 1, 2 :: int] = set [1, 2, 4, 5, 6]"
    by auto
  moreover have "set [(1, 2), (4, 5), (5, 6), (1, 6 :: int)] = set [(4, 5), (5, 6), (1, 6), (1, 2 :: int)]"
    by auto
  ultimately show "forms_paths G [[4, 5, 6, 1, 2]]"
    unfolding forms_paths_def links assms(1)
    by (simp only: path list.map concat.simps append_Nil2 list.set insert_iff empty_iff
        simp_thms list.simps not_False_eq_True) simp
  show "\<not> forms_paths G [p, q]"
  proof
    assume fp: "forms_paths G [p, q]"
    have ne: "p \<noteq> []" "q \<noteq> []"
      using fp by (auto simp: forms_paths_def)
    have dist: "distinct (p @ q)"
      using fp by (simp add: forms_paths_def)
    then have disj: "set p \<inter> set q = {}"
      by simp
    have "set (p @ q) = set (nodes G)"
      using fp by (simp add: forms_paths_def)
    then have cover: "set p \<union> set q \<subseteq> {1, 2, 4, 5, 6}"
      by (simp add: assms(1))
    have "set (map (\<lambda>e. upair (fst e)) (edge_list G)) = set (path_links p @ path_links q)"
      using fp by (simp add: forms_paths_def)
    then have eq: "set [(1, 2), (4, 5), (5, 6), (1, 6)] = set (path_links p) \<union> set (path_links q)"
      by (simp only: links set_append)
    have side: "(a \<in> set p \<and> b \<in> set p) \<or> (a \<in> set q \<and> b \<in> set q)"
      if "(a, b) \<in> set [(1, 2), (4, 5), (5, 6), (1, 6 :: int)]" for a b
    proof -
      from that eq have "(a, b) \<in> set (path_links p) \<or> (a, b) \<in> set (path_links q)"
        by (simp only: Un_iff)
      then show ?thesis
        using path_links_endpoints [of "(a, b)" p] path_links_endpoints [of "(a, b)" q]
        by (elim disjE) simp_all
    qed
    have "set p = {} \<or> set q = {}"
    proof (rule two_sides [of 1 "set p" 2 "set q" 4 5 6])
      show "(1 \<in> set p \<and> 2 \<in> set p) \<or> (1 \<in> set q \<and> 2 \<in> set q)"
        by (rule side) simp
      show "(4 \<in> set p \<and> 5 \<in> set p) \<or> (4 \<in> set q \<and> 5 \<in> set q)"
        by (rule side) simp
      show "(5 \<in> set p \<and> 6 \<in> set p) \<or> (5 \<in> set q \<and> 6 \<in> set q)"
        by (rule side) simp
      show "(1 \<in> set p \<and> 6 \<in> set p) \<or> (1 \<in> set q \<and> 6 \<in> set q)"
        by (rule side) simp
      show "set p \<inter> set q = {}"
        by (rule disj)
      show "set p \<union> set q \<subseteq> {1, 2, 4, 5, 6}"
        by (rule cover)
    qed
    with ne show False by simp
  qed
qed

text \<open>
  Claim C9 says that after Ring with six nodes, assignment from red and green, and the
  failure of node 3, the remaining links form two disjoint paths. \<open>forms_paths G ps\<close> says
  that the non-empty, pairwise disjoint simple paths \<open>ps\<close> pass through every node of \<open>G\<close>
  and that the links of \<open>G\<close> are exactly the steps of these paths. No two paths do that for
  the result: the link between 6 and 1 is still there and joins what would be the two.
\<close>

theorem ring6_fail3_not_two_paths:
  "\<not> (\<exists>G' p q. simulate 6 ''Ring'' [''red'', ''green''] 3 draw_first = Inr G'
                 \<and> forms_paths G' [p, q])"
proof
  assume "\<exists>G' p q. simulate 6 ''Ring'' [''red'', ''green''] 3 draw_first = Inr G'
                 \<and> forms_paths G' [p, q]"
  then obtain G' p q where run: "simulate 6 ''Ring'' [''red'', ''green''] 3 draw_first = Inr G'"
    and two: "forms_paths G' [p, q]"
    by blast
  from simulate_ring6 [of draw_first]
  obtain K where K: "simulate 6 ''Ring'' [''red'', ''green''] 3 draw_first = Inr K
      \<and> nodes K = [1, 2, 4, 5, 6]
      \<and> map fst (edge_list K) = [(1, 2), (4, 5), (5, 6), (6, 1)]
      \<and> list_all (labelled [''red'', ''green'']) (edge_list K)" ..
  with run have "K = G'"
    by simp
  with K have "nodes G' = [1, 2, 4, 5, 6]"
    "map fst (edge_list G') = [(1, 2), (4, 5), (5, 6), (6, 1)]"
    by simp_all
  then have "\<not> forms_paths G' [p, q]"
    by (rule one_path_not_two(2))
  with two show False by simp
qed

text \<open>
  Claim C9, as the code has it: whatever the generator draws, the run returns a graph with
  the nodes 1, 2, 4, 5, 6 and the four links \<open>(1, 2), (4, 5), (5, 6), (6, 1)\<close>, each with the
  wavelength red or green; the links \<open>(2, 3)\<close> and \<open>(3, 4)\<close> of the ring are gone, and the
  remaining ones form the single path 4, 5, 6, 1, 2 through all five nodes.
\<close>

theorem ring6_fail3:
  "\<exists>G'. simulate 6 ''Ring'' [''red'', ''green''] 3 rnd = Inr G'
      \<and> nodes G' = [1, 2, 4, 5, 6]
      \<and> length (edge_list G') = 4
      \<and> map fst (edge_list G') = [(1, 2), (4, 5), (5, 6), (6, 1)]
      \<and> list_all (labelled [''red'', ''green'']) (edge_list G')
      \<and> forms_paths G' [[4, 5, 6, 1, 2]]"
proof -
  from simulate_ring6 [of rnd]
  obtain G' where all: "simulate 6 ''Ring'' [''red'', ''green''] 3 rnd = Inr G'
      \<and> nodes G' = [1, 2, 4, 5, 6]
      \<and> map fst (edge_list G') = [(1, 2), (4, 5), (5, 6), (6, 1)]
      \<and> list_all (labelled [''red'', ''green'']) (edge_list G')" ..
  then have G': "simulate 6 ''Ring'' [''red'', ''green''] 3 rnd = Inr G'"
    "nodes G' = [1, 2, 4, 5, 6]"
    "map fst (edge_list G') = [(1, 2), (4, 5), (5, 6), (6, 1)]"
    "list_all (labelled [''red'', ''green'']) (edge_list G')"
    by simp_all
  have "length (map fst (edge_list G')) = 4"
    by (simp only: G'(3)) simp
  then have "length (edge_list G') = 4"
    by simp
  moreover have "forms_paths G' [[4, 5, 6, 1, 2]]"
    using G'(2,3) by (rule one_path_not_two(1))
  ultimately show ?thesis
    using G' by (intro exI [of _ G'] conjI)
qed

end
